theory Spec2Isabelle
  imports Main
begin

section \<open>String and path primitives used by simplesmdspider.py\<close>

text \<open>
  The script runs under \<^verbatim>\<open>#!/usr/bin/python3\<close> on a POSIX host, so \<^verbatim>\<open>os.path\<close> is
  \<^verbatim>\<open>posixpath\<close>: the local separator is the slash, and the backslash is an ordinary
  character of a local file name.
\<close>

definition slash :: char where
  "slash = CHR ''/''"

definition bslash :: char where
  "bslash = CHR 0x5C"

text \<open>
  \<^verbatim>\<open>os.path.join(a, b)\<close> with two arguments (posixpath.join): a second component that
  starts with the separator replaces the path built so far; otherwise it is appended,
  with a separator unless the first one is empty or already ends with one.
\<close>

definition path_join :: "string \<Rightarrow> string \<Rightarrow> string" where
  "path_join a b =
     (if b \<noteq> [] \<and> hd b = slash then b
      else if a = [] \<or> last a = slash then a @ b
      else a @ [slash] @ b)"

text \<open>\<^verbatim>\<open>s.replace("\\", "/")\<close>: every backslash becomes a slash.\<close>

definition replace_bslash :: "string \<Rightarrow> string" where
  "replace_bslash s = map (\<lambda>c. if c = bslash then slash else c) s"

text \<open>\<^verbatim>\<open>s.lstrip('\\')\<close>: leading backslashes are removed.\<close>

definition lstrip_bslash :: "string \<Rightarrow> string" where
  "lstrip_bslash s = dropWhile (\<lambda>c. c = bslash) s"

text \<open>\<^verbatim>\<open>s.rstrip('/')\<close>, as used by posixpath.dirname.\<close>

definition rstrip_slash :: "string \<Rightarrow> string" where
  "rstrip_slash s = rev (dropWhile (\<lambda>c. c = slash) (rev s))"

text \<open>
  \<^verbatim>\<open>os.path.dirname(p)\<close> (posixpath): the part up to and including the last slash, with
  trailing slashes removed unless it consists of slashes only.
\<close>

definition dirname :: "string \<Rightarrow> string" where
  "dirname p =
     (let head = rev (dropWhile (\<lambda>c. c \<noteq> slash) (rev p))
      in if head \<noteq> [] \<and> filter (\<lambda>c. c \<noteq> slash) head \<noteq> [] then rstrip_slash head else head)"

text \<open>\<^verbatim>\<open>netname[:-1]\<close>: the string without its last character; the empty string stays empty.\<close>

definition drop_last :: "string \<Rightarrow> string" where
  "drop_last s = take (length s - 1) s"

section \<open>Path construction in \<^verbatim>\<open>spider_files\<close> and \<^verbatim>\<open>spider_smb_shares\<close>\<close>

text \<open>Line 91: \<^verbatim>\<open>full_remote_path = os.path.join(remote_path, filename).replace("\\", "/")\<close>.\<close>

definition full_remote_path :: "string \<Rightarrow> string \<Rightarrow> string" where
  "full_remote_path remote_path filename = replace_bslash (path_join remote_path filename)"

text \<open>Line 92: \<^verbatim>\<open>local_path = os.path.join(local_base_path, full_remote_path.lstrip('\\'))\<close>.\<close>

definition local_path :: "string \<Rightarrow> string \<Rightarrow> string \<Rightarrow> string" where
  "local_path local_base_path remote_path filename =
     path_join local_base_path (lstrip_bslash (full_remote_path remote_path filename))"

text \<open>Line 97: the remote path handed to the recursive call, \<^verbatim>\<open>full_remote_path + '\\'\<close>.\<close>

definition child_remote_path :: "string \<Rightarrow> string \<Rightarrow> string" where
  "child_remote_path remote_path filename = full_remote_path remote_path filename @ [bslash]"

text \<open>Line 65: \<^verbatim>\<open>host_directory = os.path.join('output', host)\<close>.\<close>

definition host_directory :: "string \<Rightarrow> string" where
  "host_directory host = path_join ''output'' host"

text \<open>Line 71: \<^verbatim>\<open>share_directory = os.path.join(host_directory, share)\<close>.\<close>

definition share_directory :: "string \<Rightarrow> string \<Rightarrow> string" where
  "share_directory host share = path_join (host_directory host) share"

text \<open>
  The traversal starts at \<^verbatim>\<open>remote_path = ''\<close> (line 75) and descends one directory
  name at a time (line 97); \<open>remote_path_of ds\<close> is the remote path reached through the
  directories \<open>ds\<close>, outermost first.
\<close>

definition remote_path_of :: "string list \<Rightarrow> string" where
  "remote_path_of ds = foldl child_remote_path [] ds"

text \<open>
  The local path the program computes for the entry \<open>filename\<close> found after descending
  through the directories \<open>ds\<close> of \<open>share\<close> on \<open>host\<close>.
\<close>

definition map_path :: "string \<Rightarrow> string \<Rightarrow> string list \<Rightarrow> string \<Rightarrow> string" where
  "map_path host share ds filename =
     local_path (share_directory host share) (remote_path_of ds) filename"

section \<open>The collaborators: the SMB library and the local file system\<close>

text \<open>An entry of a directory listing: \<^verbatim>\<open>get_longname()\<close> and \<^verbatim>\<open>is_directory()\<close>.\<close>

record entry =
  longname :: string
  is_directory :: bool

text \<open>The connection object: the host it was opened to and the credentials it logged in with.\<close>

record smb_connection =
  remote_host :: string
  user :: string
  password :: string

text \<open>
  What the calls the program makes answer. A call that raises is \<open>False\<close> or \<open>None\<close>.
  \<open>listShares\<close> gives the \<^verbatim>\<open>shi1_netname\<close> fields; \<open>listPath\<close> takes the share and the
  pattern; \<open>makedirs_ok\<close> and \<open>open_ok\<close> stand for \<^verbatim>\<open>os.makedirs(p, exist_ok=True)\<close> and
  \<^verbatim>\<open>open(p, 'wb')\<close>. \<open>recursion_limit\<close> is what the interpreter's recursion limit leaves
  to the traversal: the number of nested calls of \<^verbatim>\<open>spider_files\<close> below which a listing
  call still finds room on the stack.
\<close>

record env =
  connect_ok :: "string \<Rightarrow> bool"
  login_ok :: "string \<Rightarrow> string \<Rightarrow> string \<Rightarrow> bool"
  listShares :: "smb_connection \<Rightarrow> string list option"
  listPath :: "smb_connection \<Rightarrow> string \<Rightarrow> string \<Rightarrow> entry list option"
  getFile_ok :: "smb_connection \<Rightarrow> string \<Rightarrow> string \<Rightarrow> bool"
  logoff_ok :: "smb_connection \<Rightarrow> bool"
  makedirs_ok :: "string \<Rightarrow> bool"
  open_ok :: "string \<Rightarrow> bool"
  recursion_limit :: nat

text \<open>The lines the program prints, without the text of the exception.\<close>

datatype message =
    Trying string string
  | ErrListingShares
  | ErrListingFiles string
  | Downloaded string string
  | ErrDownloading string
  | NoSharesFound string string
  | ListingFilesIn string string
  | ErrConnecting string string

text \<open>
  Everything the program does to the outside, in order: the calls on the SMB library,
  the calls on the local file system, and the printed lines. A call is recorded when it
  is made, whether it then returns or raises.
\<close>

datatype event =
    Connect string
  | Login string string string
  | ListShares
  | ListPath string string
  | GetFile string string
  | Logoff
  | MakeDirs string
  | OpenWrite string
  | Print message

type_synonym trace = "event list"

text \<open>An exception that leaves a function; every one the program can meet is an \<^verbatim>\<open>Exception\<close>.\<close>

datatype error = OSError | ValueError

section \<open>The functions of simplesmdspider.py\<close>

text \<open>Lines 9-19.\<close>

definition list_shares :: "env \<Rightarrow> smb_connection \<Rightarrow> trace \<Rightarrow> string list \<times> trace" where
  "list_shares env c w =
     (case listShares env c of
        Some shares \<Rightarrow> (map drop_last shares, w @ [ListShares])
      | None \<Rightarrow> ([], w @ [ListShares, Print ErrListingShares]))"

text \<open>
  Lines 21-31, called from the frame of \<^verbatim>\<open>spider_files\<close> at nesting depth \<open>depth\<close> (0 for
  the call of line 75). At depth \<open>recursion_limit\<close> the stack is used up and the library call
  raises \<^verbatim>\<open>RecursionError\<close>; it is an \<^verbatim>\<open>Exception\<close> raised inside the \<^verbatim>\<open>try\<close>, so line 29
  catches it like any failure of the listing.
\<close>

definition list_files ::
  "env \<Rightarrow> nat \<Rightarrow> smb_connection \<Rightarrow> string \<Rightarrow> string \<Rightarrow> trace \<Rightarrow> entry list \<times> trace" where
  "list_files env depth c share_name base_path w =
     (if recursion_limit env \<le> depth
      then ([], w @ [ListPath share_name (base_path @ ''*''), Print (ErrListingFiles share_name)])
      else
        case listPath env c share_name (base_path @ ''*'') of
          Some files \<Rightarrow> (files, w @ [ListPath share_name (base_path @ ''*'')])
        | None \<Rightarrow>
            ([], w @ [ListPath share_name (base_path @ ''*''),
                      Print (ErrListingFiles share_name)]))"

text \<open>Lines 33-46. Every failure is caught inside; the function always returns.\<close>

definition download_file ::
  "env \<Rightarrow> smb_connection \<Rightarrow> string \<Rightarrow> string \<Rightarrow> string \<Rightarrow> trace \<Rightarrow> trace" where
  "download_file env c share_name remote_path lp w =
     (if \<not> makedirs_ok env (dirname lp)
      then w @ [MakeDirs (dirname lp), Print (ErrDownloading remote_path)]
      else if \<not> open_ok env lp
      then w @ [MakeDirs (dirname lp), OpenWrite lp, Print (ErrDownloading remote_path)]
      else if \<not> getFile_ok env c share_name remote_path
      then w @ [MakeDirs (dirname lp), OpenWrite lp, GetFile share_name remote_path,
                Print (ErrDownloading remote_path)]
      else w @ [MakeDirs (dirname lp), OpenWrite lp, GetFile share_name remote_path,
                Print (Downloaded remote_path lp)])"

text \<open>
  Lines 81-100. \<open>spider_entries\<close> is the \<^verbatim>\<open>for file in files\<close> loop of \<^verbatim>\<open>spider_files\<close>
  over the entries still to process; the recursive call of line 97 runs one frame deeper:
  it lists the child directory and runs the loop on its entries. An \<open>Inl\<close> result is the
  exception of \<^verbatim>\<open>os.makedirs\<close> (line 96), which nothing in \<^verbatim>\<open>spider_files\<close> catches.

  The recursion ends because the stack does: a listing made at depth \<open>recursion_limit\<close> or
  deeper raises, \<^verbatim>\<open>list_files\<close> returns the empty list, and the loop has nothing to enter.
  The other calls of the loop body need no more stack than \<^verbatim>\<open>list_files\<close> with the library
  call inside it, which ran in the same frame before the loop started; a
  \<^verbatim>\<open>RecursionError\<close> inside \<^verbatim>\<open>os.makedirs\<close>, \<^verbatim>\<open>open\<close> or \<^verbatim>\<open>getFile\<close> is one more way for
  that call to raise.
\<close>

function spider_entries ::
  "env \<Rightarrow> nat \<Rightarrow> smb_connection \<Rightarrow> string \<Rightarrow> string \<Rightarrow> string \<Rightarrow> entry list \<Rightarrow> trace
     \<Rightarrow> (error + unit) \<times> trace" where
  "spider_entries env depth c share_name remote_path local_base_path [] w = (Inr (), w)"
| "spider_entries env depth c share_name remote_path local_base_path (file # rest) w =
     (if longname file \<in> set [''.'', ''..'']
      then spider_entries env depth c share_name remote_path local_base_path rest w
      else if is_directory file
      then
        if makedirs_ok env (local_path local_base_path remote_path (longname file))
        then
          (case spider_entries env (Suc depth) c share_name
                  (full_remote_path remote_path (longname file) @ [bslash]) local_base_path
                  (fst (list_files env (Suc depth) c share_name
                     (full_remote_path remote_path (longname file) @ [bslash])
                     (w @ [MakeDirs (local_path local_base_path remote_path (longname file))])))
                  (snd (list_files env (Suc depth) c share_name
                     (full_remote_path remote_path (longname file) @ [bslash])
                     (w @ [MakeDirs (local_path local_base_path remote_path (longname file))])))
           of
             (Inl e, w') \<Rightarrow> (Inl e, w')
           | (Inr u, w') \<Rightarrow>
               spider_entries env depth c share_name remote_path local_base_path rest w')
        else
          (Inl OSError,
           w @ [MakeDirs (local_path local_base_path remote_path (longname file))])
      else
        spider_entries env depth c share_name remote_path local_base_path rest
          (download_file env c share_name (full_remote_path remote_path (longname file))
             (local_path local_base_path remote_path (longname file)) w))"
  by pat_completeness auto

termination
  by (relation "measures
        [\<lambda>(env, depth, c, share_name, remote_path, local_base_path, files, w).
            recursion_limit env - depth,
         \<lambda>(env, depth, c, share_name, remote_path, local_base_path, files, w).
            length files]")
     (auto simp: list_files_def split: option.splits)

declare spider_entries.simps [simp del]

definition spider_files ::
  "env \<Rightarrow> nat \<Rightarrow> smb_connection \<Rightarrow> string \<Rightarrow> string \<Rightarrow> string \<Rightarrow> trace
     \<Rightarrow> (error + unit) \<times> trace" where
  "spider_files env depth c share_name remote_path local_base_path w =
     spider_entries env depth c share_name remote_path local_base_path
       (fst (list_files env depth c share_name remote_path w))
       (snd (list_files env depth c share_name remote_path w))"

text \<open>Lines 69-75: the loop over the shares of one session.\<close>

fun share_loop ::
  "env \<Rightarrow> smb_connection \<Rightarrow> string \<Rightarrow> string list \<Rightarrow> trace \<Rightarrow> (error + unit) \<times> trace" where
  "share_loop env c host [] w = (Inr (), w)"
| "share_loop env c host (share # rest) w =
     (if makedirs_ok env (share_directory host share)
      then
        (case spider_files env 0 c share [] (share_directory host share)
                (w @ [Print (ListingFilesIn share host), MakeDirs (share_directory host share)])
         of
           (Inl e, w') \<Rightarrow> (Inl e, w')
         | (Inr u, w') \<Rightarrow> share_loop env c host rest w')
      else
        (Inl OSError,
         w @ [Print (ListingFilesIn share host), MakeDirs (share_directory host share)]))"

text \<open>
  Lines 48-79. The \<^verbatim>\<open>except Exception\<close> of line 78 catches whatever the body raises and
  prints the line of line 79; the function itself never raises.
\<close>

definition spider_smb_shares :: "env \<Rightarrow> string \<Rightarrow> string \<Rightarrow> string \<Rightarrow> trace \<Rightarrow> trace" where
  "spider_smb_shares env host username pw w =
     (if \<not> connect_ok env host
      then w @ [Connect host, Print (ErrConnecting host username)]
      else if \<not> login_ok env host username pw
      then w @ [Connect host, Login host username pw, Print (ErrConnecting host username)]
      else
        let c = \<lparr>remote_host = host, user = username, password = pw\<rparr>;
            shares = fst (list_shares env c (w @ [Connect host, Login host username pw]));
            w1 = snd (list_shares env c (w @ [Connect host, Login host username pw]))
        in
          if shares = []
          then w1 @ [Print (NoSharesFound host username)]
          else if \<not> makedirs_ok env (host_directory host)
          then w1 @ [MakeDirs (host_directory host), Print (ErrConnecting host username)]
          else
            (case share_loop env c host shares (w1 @ [MakeDirs (host_directory host)]) of
               (Inl e, w2) \<Rightarrow> w2 @ [Print (ErrConnecting host username)]
             | (Inr u, w2) \<Rightarrow>
                 if logoff_ok env c
                 then w2 @ [Logoff]
                 else w2 @ [Logoff, Print (ErrConnecting host username)]))"

text \<open>
  \<^verbatim>\<open>itertools.product(hosts, usernames, passwords)\<close>, as the library documents it: starting
  from the one empty tuple, each pool in turn extends every tuple built so far by each of
  its items.
\<close>

definition product_step :: "'a list list \<Rightarrow> 'a list \<Rightarrow> 'a list list" where
  "product_step result pool = concat (map (\<lambda>x. map (\<lambda>y. x @ [y]) pool) result)"

definition itertools_product :: "'a list list \<Rightarrow> 'a list list" where
  "itertools_product pools = foldl product_step [[]] pools"

text \<open>
  Lines 124-126: the loop of \<^verbatim>\<open>main\<close>. Each item is unpacked into three names, which
  raises \<^verbatim>\<open>ValueError\<close> on an item of another length.
\<close>

fun main_loop :: "env \<Rightarrow> string list list \<Rightarrow> trace \<Rightarrow> (error + unit) \<times> trace" where
  "main_loop env [] w = (Inr (), w)"
| "main_loop env ([host, username, pw] # rest) w =
     main_loop env rest
       (spider_smb_shares env host username pw (w @ [Print (Trying host username)]))"
| "main_loop env (item # rest) w = (Inl ValueError, w)"

text \<open>\<^verbatim>\<open>main\<close> once the three files have been read into lists of stripped lines.\<close>

definition main :: "env \<Rightarrow> string list \<Rightarrow> string list \<Rightarrow> string list \<Rightarrow> trace
     \<Rightarrow> (error + unit) \<times> trace" where
  "main env hosts usernames passwords w =
     main_loop env (itertools_product [hosts, usernames, passwords]) w"

section \<open>Vocabulary of the properties\<close>

text \<open>
  A name is clean when it is not empty and holds neither separator. \<open>sep_join\<close> is the
  relative path the program builds from clean names: the names with two slashes between
  neighbours (one added by \<^verbatim>\<open>os.path.join\<close>, one the replaced backslash of line 97).
  \<open>is_descendant root p\<close>: the path \<open>p\<close> is \<open>root\<close>, a slash, and components none of
  which is the parent token.
\<close>

definition clean_name :: "string \<Rightarrow> bool" where
  "clean_name n \<longleftrightarrow> n \<noteq> [] \<and> slash \<notin> set n \<and> bslash \<notin> set n"

definition sep_join :: "string list \<Rightarrow> string" where
  "sep_join ns = (case ns of [] \<Rightarrow> [] | n # ms \<Rightarrow> n @ concat (map (\<lambda>m. [slash, slash] @ m) ms))"

fun split_slash :: "string \<Rightarrow> string list" where
  "split_slash [] = [[]]"
| "split_slash (c # cs) =
     (if c = slash then [] # split_slash cs
      else (case split_slash cs of [] \<Rightarrow> [[c]] | x # xs \<Rightarrow> (c # x) # xs))"

definition is_descendant :: "string \<Rightarrow> string \<Rightarrow> bool" where
  "is_descendant root p \<longleftrightarrow>
     take (length root + 1) p = root @ [slash] \<and>
     ''..'' \<notin> set (split_slash (drop (length root + 1) p))"

text \<open>
  The events the traversal of one share can add to the trace (calls on the connection
  carry that share's name), and the events of the loop over the shares of a session.
\<close>

fun traversal_event :: "string \<Rightarrow> event \<Rightarrow> bool" where
  "traversal_event share (ListPath s pat) = (s = share)"
| "traversal_event share (GetFile s p) = (s = share)"
| "traversal_event share (MakeDirs p) = True"
| "traversal_event share (OpenWrite p) = True"
| "traversal_event share (Print (ErrListingFiles s)) = (s = share)"
| "traversal_event share (Print (Downloaded r l)) = True"
| "traversal_event share (Print (ErrDownloading r)) = True"
| "traversal_event share e = False"

definition session_event :: "string list \<Rightarrow> string \<Rightarrow> event \<Rightarrow> bool" where
  "session_event shares host e \<longleftrightarrow>
     list_ex (\<lambda>s. traversal_event s e \<or> e = Print (ListingFilesIn s host)) shares"



fun message_of :: "event \<Rightarrow> message list" where
  "message_of (Print m) = [m]"
| "message_of e = []"



definition printed :: "trace \<Rightarrow> message list" where
  "printed w = concat (map message_of w)"

text \<open>
  The events of a traversal that starts at \<open>rp\<close> with \<open>k\<close> levels of stack left, when every
  listing answers with the one directory named \<open>n\<close> and every directory can be created:
  list, create, descend, until the listing at the last level raises.
\<close>

fun descent :: "string \<Rightarrow> string \<Rightarrow> string \<Rightarrow> string \<Rightarrow> nat \<Rightarrow> trace" where
  "descent share base n rp 0 = [ListPath share (rp @ ''*''), Print (ErrListingFiles share)]"
| "descent share base n rp (Suc k) =
     [ListPath share (rp @ ''*''), MakeDirs (local_path base rp n)]
       @ descent share base n (child_remote_path rp n) k"

section \<open>Concrete collaborators\<close>

text \<open>
  A collaborator for which every call succeeds, with the given answer of
  \<^verbatim>\<open>listShares\<close> and the given listings; the examples below override single fields.
\<close>

definition all_ok_env :: "string list option \<Rightarrow> (string \<Rightarrow> string \<Rightarrow> entry list option) \<Rightarrow> env" where
  "all_ok_env shares listing =
     \<lparr>connect_ok = (\<lambda>h. True), login_ok = (\<lambda>h u p. True), listShares = (\<lambda>c. shares),
      listPath = (\<lambda>c. listing), getFile_ok = (\<lambda>c s p. True), logoff_ok = (\<lambda>c. True),
      makedirs_ok = (\<lambda>p. True), open_ok = (\<lambda>p. True), recursion_limit = 1000\<rparr>"

definition dir_entry :: "string \<Rightarrow> entry" where
  "dir_entry n = \<lparr>longname = n, is_directory = True\<rparr>"

definition file_entry :: "string \<Rightarrow> entry" where
  "file_entry n = \<lparr>longname = n, is_directory = False\<rparr>"

definition conn0 :: smb_connection where
  "conn0 = \<lparr>remote_host = ''10.0.0.5'', user = ''guest'', password = ''''\<rparr>"

definition scenario_env :: env where
  "scenario_env = all_ok_env (Some [''public0''])
       (\<lambda>s p. if p = ''*'' then Some [dir_entry ''docs'', file_entry ''readme.txt'']
               else if p = ''docs'' @ [bslash] @ ''*'' then Some [file_entry ''a.txt'']
               else None)"

definition self_child_env :: "nat \<Rightarrow> env" where
  "self_child_env limit =
     (all_ok_env (Some [''public0'']) (\<lambda>s p. Some [dir_entry ''X'']))\<lparr>recursion_limit := limit\<rparr>"

definition twice_env :: env where
  "twice_env = all_ok_env (Some [''public0''])
       (\<lambda>s p. if p = ''*'' then Some [dir_entry ''X'', dir_entry ''X''] else Some [])"

definition two_denied_env :: env where
  "two_denied_env = all_ok_env (Some [''public0''])
       (\<lambda>s p. if p = ''*'' then Some [dir_entry ''a'', dir_entry ''b''] else None)"

section \<open>The loop of \<^verbatim>\<open>spider_files\<close>, one entry at a time\<close>

lemma spider_entries_Nil:
  "spider_entries env depth c share rp base [] w = (Inr (), w)"
  by (simp add: spider_entries.simps)

lemma spider_entries_Cons:
  "spider_entries env depth c share_name remote_path local_base_path (ent # rest) w =
     (if longname ent \<in> set [''.'', ''..'']
      then spider_entries env depth c share_name remote_path local_base_path rest w
      else if is_directory ent
      then
        if makedirs_ok env (local_path local_base_path remote_path (longname ent))
        then
          (case spider_files env (Suc depth) c share_name
                  (child_remote_path remote_path (longname ent)) local_base_path
                  (w @ [MakeDirs (local_path local_base_path remote_path (longname ent))])
           of
             (Inl e, w') \<Rightarrow> (Inl e, w')
           | (Inr u, w') \<Rightarrow>
               spider_entries env depth c share_name remote_path local_base_path rest w')
        else
          (Inl OSError,
           w @ [MakeDirs (local_path local_base_path remote_path (longname ent))])
      else
        spider_entries env depth c share_name remote_path local_base_path rest
          (download_file env c share_name (full_remote_path remote_path (longname ent))
             (local_path local_base_path remote_path (longname ent)) w))"
  by (subst spider_entries.simps) (simp add: spider_files_def child_remote_path_def)

lemmas eval_defs = main_def itertools_product_def product_step_def spider_smb_shares_def
  list_shares_def drop_last_def host_directory_def share_directory_def
  spider_files_def spider_entries_Cons spider_entries_Nil list_files_def download_file_def
  dirname_def rstrip_slash_def all_ok_env_def dir_entry_def file_entry_def conn0_def
  child_remote_path_def local_path_def full_remote_path_def
  path_join_def replace_bslash_def lstrip_bslash_def slash_def bslash_def Let_def

section \<open>Local paths\<close>

lemma slash_neq_bslash: "slash \<noteq> bslash"
  by (simp add: slash_def bslash_def)

lemma replace_bslash_append: "replace_bslash (a @ b) = replace_bslash a @ replace_bslash b"
  by (simp add: replace_bslash_def)

lemma replace_bslash_id: "bslash \<notin> set s \<Longrightarrow> replace_bslash s = s"
  by (induction s) (auto simp: replace_bslash_def)

lemma bslash_notin_replace: "bslash \<notin> set (replace_bslash s)"
  using slash_neq_bslash by (induction s) (auto simp: replace_bslash_def)

lemma lstrip_bslash_id: "bslash \<notin> set s \<Longrightarrow> lstrip_bslash s = s"
  by (cases s) (auto simp: lstrip_bslash_def)

lemma lstrip_after_replace: "lstrip_bslash (replace_bslash s) = replace_bslash s"
  by (rule lstrip_bslash_id) (rule bslash_notin_replace)

lemma local_path_eq: "local_path base rp n = path_join base (full_remote_path rp n)"
  by (simp add: local_path_def full_remote_path_def lstrip_after_replace)

lemma path_join_plain:
  "a \<noteq> [] \<Longrightarrow> last a \<noteq> slash \<Longrightarrow> b = [] \<or> hd b \<noteq> slash \<Longrightarrow> path_join a b = a @ [slash] @ b"
  by (auto simp: path_join_def)

lemma path_join_empty: "b \<noteq> [] \<Longrightarrow> hd b \<noteq> slash \<Longrightarrow> path_join [] b = b"
  by (simp add: path_join_def)

lemma clean_hd: "clean_name n \<Longrightarrow> hd n \<noteq> slash"
  by (cases n) (auto simp: clean_name_def)

lemma clean_last: "clean_name n \<Longrightarrow> last n \<noteq> slash"
  by (metis clean_name_def last_in_set)

lemma sep_join_snoc: "ns \<noteq> [] \<Longrightarrow> sep_join (ns @ [n]) = sep_join ns @ [slash, slash] @ n"
  by (cases ns) (auto simp: sep_join_def)

lemma sep_join_single: "sep_join [n] = n"
  by (simp add: sep_join_def)

lemma bslash_notin_sep_join: "list_all clean_name ns \<Longrightarrow> bslash \<notin> set (sep_join ns)"
  using slash_neq_bslash by (cases ns) (auto simp: sep_join_def clean_name_def list_all_iff)

lemma remote_path_of_snoc:
  "remote_path_of (ds @ [d]) = full_remote_path (remote_path_of ds) d @ [bslash]"
  by (simp add: remote_path_of_def child_remote_path_def)

lemma remote_path_of_clean:
  "list_all clean_name ds \<Longrightarrow>
     remote_path_of ds = (if ds = [] then [] else sep_join ds @ [bslash])"
proof (induction ds rule: rev_induct)
  case Nil
  show ?case by (simp add: remote_path_of_def)
next
  case (snoc d ds)
  then have cd: "clean_name d" and cds: "list_all clean_name ds" by simp_all
  have nd: "replace_bslash d = d" using cd by (simp add: replace_bslash_id clean_name_def)
  show ?case
  proof (cases "ds = []")
    case True
    then show ?thesis
      using cd nd by (simp add: remote_path_of_def child_remote_path_def full_remote_path_def
          path_join_empty clean_hd clean_name_def sep_join_single)
  next
    case False
    then have rp: "remote_path_of ds = sep_join ds @ [bslash]" using snoc.IH cds by simp
    have pj: "path_join (sep_join ds @ [bslash]) d = (sep_join ds @ [bslash]) @ [slash] @ d"
      using cd slash_neq_bslash by (intro path_join_plain) (auto simp: clean_hd)
    have "replace_bslash (sep_join ds) = sep_join ds"
      using cds by (simp add: replace_bslash_id bslash_notin_sep_join)
    then show ?thesis
      using False rp pj nd
      by (simp add: remote_path_of_snoc full_remote_path_def replace_bslash_append
          sep_join_snoc replace_bslash_def)
  qed
qed

lemma full_remote_path_clean:
  assumes "list_all clean_name (ds @ [n])"
  shows "full_remote_path (remote_path_of ds) n = sep_join (ds @ [n])"
proof -
  have "remote_path_of (ds @ [n]) = sep_join (ds @ [n]) @ [bslash]"
    using remote_path_of_clean[OF assms] by simp
  then show ?thesis by (simp add: remote_path_of_snoc)
qed

lemma share_directory_clean:
  assumes "clean_name host" "clean_name share"
  shows "share_directory host share = ''output/'' @ host @ [slash] @ share"
proof -
  have h: "host_directory host = ''output'' @ [slash] @ host"
    unfolding host_directory_def
  proof (rule path_join_plain)
    show "''output'' \<noteq> []" by simp
    show "last ''output'' \<noteq> slash" by (simp add: slash_def)
    show "host = [] \<or> hd host \<noteq> slash" using clean_hd[OF assms(1)] by simp
  qed
  have "path_join (''output'' @ [slash] @ host) share = (''output'' @ [slash] @ host) @ [slash] @ share"
  proof (rule path_join_plain)
    show "''output'' @ [slash] @ host \<noteq> []" by simp
    show "last (''output'' @ [slash] @ host) \<noteq> slash"
      using clean_last[OF assms(1)] assms(1) by (simp add: clean_name_def)
    show "share = [] \<or> hd share \<noteq> slash" using clean_hd[OF assms(2)] by simp
  qed
  then show ?thesis by (simp add: share_directory_def h slash_def)
qed

lemma hd_sep_join: "list_all clean_name (n # ms) \<Longrightarrow> hd (sep_join (n # ms)) \<noteq> slash"
  by (cases n) (auto simp: sep_join_def clean_name_def)

lemma map_path_clean_eq:
  assumes "clean_name host" "clean_name share" "list_all clean_name (ds @ [n])"
  shows "map_path host share ds n = ''output/'' @ host @ [slash] @ share @ [slash] @ sep_join (ds @ [n])"
proof -
  obtain x xs where xs: "ds @ [n] = x # xs" by (cases "ds @ [n]") auto
  have t: "sep_join (ds @ [n]) = [] \<or> hd (sep_join (ds @ [n])) \<noteq> slash"
    using hd_sep_join[of x xs] assms(3) xs by simp
  have ne: "''output/'' @ host @ [slash] @ share \<noteq> []" by simp
  have la: "last (''output/'' @ host @ [slash] @ share) \<noteq> slash"
    using clean_last[OF assms(2)] assms(2) by (simp add: clean_name_def)
  show ?thesis
    unfolding map_path_def local_path_eq full_remote_path_clean[OF assms(3)]
      share_directory_clean[OF assms(1,2)]
    using path_join_plain[OF ne la t] by simp
qed

lemma split_slash_no_slash: "slash \<notin> set a \<Longrightarrow> split_slash a = [a]"
  by (induction a) auto

lemma split_slash_append: "slash \<notin> set a \<Longrightarrow> split_slash (a @ slash # b) = a # split_slash b"
  by (induction a) auto

lemma split_slash_sep_join:
  "list_all clean_name (n # ms) \<Longrightarrow>
     split_slash (sep_join (n # ms)) = n # concat (map (\<lambda>m. [[], m]) ms)"
proof (induction ms arbitrary: n)
  case Nil
  then show ?case by (simp add: sep_join_def split_slash_no_slash clean_name_def)
next
  case (Cons m ms)
  have "sep_join (n # m # ms) = n @ slash # (slash # sep_join (m # ms))"
    by (simp add: sep_join_def)
  moreover have "slash \<notin> set n" using Cons.prems by (simp add: clean_name_def)
  moreover have "split_slash (sep_join (m # ms)) = m # concat (map (\<lambda>m. [[], m]) ms)"
    using Cons.IH[of m] Cons.prems by simp
  ultimately show ?case by (simp add: split_slash_append)
qed

lemma interleave_inj:
  "concat (map (\<lambda>m. [[], m]) ms) = concat (map (\<lambda>m. [[], m]) ms') \<Longrightarrow> ms = ms'"
proof (induction ms arbitrary: ms')
  case Nil
  then show ?case by (cases ms') auto
next
  case (Cons m ms)
  then show ?case by (cases ms') auto
qed

lemma sep_join_inj:
  assumes "list_all clean_name (n # ms)" "list_all clean_name (n' # ms')"
    and "sep_join (n # ms) = sep_join (n' # ms')"
  shows "n # ms = n' # ms'"
proof -
  have "split_slash (sep_join (n # ms)) = split_slash (sep_join (n' # ms'))"
    using assms(3) by simp
  then have "n # concat (map (\<lambda>m. [[], m]) ms) = n' # concat (map (\<lambda>m. [[], m]) ms')"
    using assms(1,2) by (simp only: split_slash_sep_join)
  then show ?thesis using interleave_inj by auto
qed

lemma dotdot_notin_split:
  assumes "list_all clean_name (n # ms)" "''..'' \<notin> set (n # ms)"
  shows "''..'' \<notin> set (split_slash (sep_join (n # ms)))"
  using assms by (auto simp: split_slash_sep_join)

text \<open>
  C1. As stated the claim fails: a name with a leading separator maps outside the share
  directory, and names holding separators collide (\<open>map_path_escape_counterexample\<close>).
  What the code does: for a host, shares and entry names that are not empty and hold
  neither slash nor backslash, the local path is \<^verbatim>\<open>output/<host>/<share>/\<close> followed by the
  names joined by two slashes; it is a descendant of \<^verbatim>\<open>output/<host>/<share>\<close> when no name
  is the parent token (line 88 filters it); and on such inputs two entries of one host get
  the same local path only if share, directory chain and name are the same.
\<close>

theorem map_path_clean:
  assumes "clean_name host" and "clean_name share" and "clean_name share'"
    and "list_all clean_name (ds @ [n])" and "list_all clean_name (ds' @ [n'])"
    and "''..'' \<notin> set (ds @ [n])"
  shows "map_path host share ds n =
           ''output/'' @ host @ ''/'' @ share @ ''/'' @ sep_join (ds @ [n])
         \<and> is_descendant (''output/'' @ host @ ''/'' @ share) (map_path host share ds n)
         \<and> ((map_path host share ds n = map_path host share' ds' n') =
              (share = share' \<and> ds = ds' \<and> n = n'))"
proof -
  obtain x xs where xs: "ds @ [n] = x # xs" by (cases "ds @ [n]") auto
  obtain y ys where ys: "ds' @ [n'] = y # ys" by (cases "ds' @ [n']") auto
  have e1: "map_path host share ds n =
      ''output/'' @ host @ [slash] @ share @ [slash] @ sep_join (ds @ [n])"
    by (rule map_path_clean_eq[OF assms(1,2,4)])
  have e2: "map_path host share' ds' n' =
      ''output/'' @ host @ [slash] @ share' @ [slash] @ sep_join (ds' @ [n'])"
    by (rule map_path_clean_eq[OF assms(1,3,5)])
  have d: "is_descendant (''output/'' @ host @ ''/'' @ share) (map_path host share ds n)"
    using dotdot_notin_split[of x xs] assms(4,6) xs
    by (simp add: is_descendant_def e1 slash_def)
  have inj: "share = share' \<and> ds = ds' \<and> n = n'"
    if eq: "map_path host share ds n = map_path host share' ds' n'"
  proof -
    have "share @ slash # sep_join (x # xs) = share' @ slash # sep_join (y # ys)"
      using eq e1 e2 xs ys by simp
    then have "split_slash (share @ slash # sep_join (x # xs))
        = split_slash (share' @ slash # sep_join (y # ys))" by simp
    then have "share # split_slash (sep_join (x # xs)) = share' # split_slash (sep_join (y # ys))"
      using assms(2,3) by (simp add: split_slash_append clean_name_def)
    then have s: "share = share'"
      and "split_slash (sep_join (x # xs)) = split_slash (sep_join (y # ys))" by simp_all
    then have "x # concat (map (\<lambda>m. [[], m]) xs) = y # concat (map (\<lambda>m. [[], m]) ys)"
      using assms(4,5) xs ys by (simp add: split_slash_sep_join)
    then have "x # xs = y # ys" using interleave_inj by auto
    then have "ds @ [n] = ds' @ [n']" using xs ys by simp
    then show ?thesis using s by simp
  qed
  show ?thesis using e1 d inj by (auto simp: slash_def)
qed

theorem map_path_clean_witness:
  "map_path ''10.0.0.5'' ''public'' [''docs''] ''a.txt'' = ''output/10.0.0.5/public/docs//a.txt''
   \<and> is_descendant ''output/10.0.0.5/public'' (map_path ''10.0.0.5'' ''public'' [''docs''] ''a.txt'')
   \<and> map_path ''10.0.0.5'' ''public'' [''docs''] ''a.txt'' \<noteq> map_path ''10.0.0.5'' ''IPC$'' [] ''docs''"
  using map_path_clean[of "''10.0.0.5''" "''public''" "''IPC$''" "[''docs'']" "''a.txt''" "[]" "''docs''"]
  by (auto simp: clean_name_def slash_def bslash_def sep_join_def)

theorem map_path_escape_counterexample:
  "\<not> is_descendant ''output/10.0.0.5/public''
       (map_path ''10.0.0.5'' ''public'' [] (bslash # ''etc'' @ bslash # ''passwd''))
   \<and> map_path ''10.0.0.5'' ''public'' [] (bslash # ''etc'' @ bslash # ''passwd'') = ''/etc/passwd''
   \<and> map_path ''10.0.0.5'' ''public'' [''a''] ''b'' = map_path ''10.0.0.5'' ''public'' [] ''a//b''"
  by (simp add: is_descendant_def map_path_def local_path_def full_remote_path_def
      share_directory_def host_directory_def remote_path_of_def child_remote_path_def
      path_join_def replace_bslash_def lstrip_bslash_def slash_def bslash_def)

section \<open>Traversal\<close>

lemma list_files_frame:
  "\<exists>evs. snd (list_files env depth c share p w) = w @ ListPath share (p @ ''*'') # evs
         \<and> list_all (traversal_event share) evs"
  by (auto simp: list_files_def split: option.splits)

lemma download_file_frame:
  "\<exists>evs. download_file env c share r l w = w @ evs \<and> list_all (traversal_event share) evs"
  by (auto simp: download_file_def)

lemma spider_entries_frame:
  "\<exists>evs. snd (spider_entries env depth c share rp base fs w) = w @ evs
         \<and> list_all (traversal_event share) evs"
proof (induction env depth c share rp base fs w rule: spider_entries.induct)
  case (1 env depth c share rp base w)
  show ?case by (simp add: spider_entries_Nil)
next
  case (2 env depth c share rp base ent rest w)
  let ?n = "longname ent"
  let ?lp = "local_path base rp ?n"
  let ?frp = "full_remote_path rp ?n"
  show ?case
  proof (cases "?n \<in> set [''.'', ''..'']")
    case True
    then have "spider_entries env depth c share rp base (ent # rest) w
        = spider_entries env depth c share rp base rest w"
      by (simp add: spider_entries_Cons)
    moreover have "\<exists>evs. snd (spider_entries env depth c share rp base rest w) = w @ evs
         \<and> list_all (traversal_event share) evs"
      using "2.IH"(1) True by blast
    ultimately show ?thesis by simp
  next
    case nd: False
    show ?thesis
    proof (cases "is_directory ent")
      case False
      let ?w1 = "download_file env c share ?frp ?lp w"
      have eq: "spider_entries env depth c share rp base (ent # rest) w
          = spider_entries env depth c share rp base rest ?w1"
        using nd False by (simp add: spider_entries_Cons)
      obtain evs0 where e0: "?w1 = w @ evs0" "list_all (traversal_event share) evs0"
        using download_file_frame by blast
      have "\<exists>evs. snd (spider_entries env depth c share rp base rest ?w1) = ?w1 @ evs
         \<and> list_all (traversal_event share) evs"
        using "2.IH"(4) nd False by blast
      then obtain evs1 where
        e1: "snd (spider_entries env depth c share rp base rest ?w1) = ?w1 @ evs1"
          "list_all (traversal_event share) evs1" by blast
      have "snd (spider_entries env depth c share rp base (ent # rest) w) = w @ (evs0 @ evs1)"
        using eq e0(1) e1(1) by simp
      moreover have "list_all (traversal_event share) (evs0 @ evs1)" using e0(2) e1(2) by simp
      ultimately show ?thesis by blast
    next
      case dir: True
      show ?thesis
      proof (cases "makedirs_ok env ?lp")
        case False
        then have "spider_entries env depth c share rp base (ent # rest) w
            = (Inl OSError, w @ [MakeDirs ?lp])"
          using nd dir by (simp add: spider_entries_Cons)
        then have "snd (spider_entries env depth c share rp base (ent # rest) w)
            = w @ [MakeDirs ?lp]" by simp
        moreover have "list_all (traversal_event share) [MakeDirs ?lp]" by simp
        ultimately show ?thesis by blast
      next
        case ok: True
        let ?w1 = "w @ [MakeDirs ?lp]"
        let ?lf = "list_files env (Suc depth) c share (?frp @ [bslash]) ?w1"
        let ?r = "spider_entries env (Suc depth) c share (?frp @ [bslash]) base
                    (fst ?lf) (snd ?lf)"
        obtain evs where
          ev: "snd ?lf = ?w1 @ ListPath share ((?frp @ [bslash]) @ ''*'') # evs"
            "list_all (traversal_event share) evs"
          using list_files_frame by blast
        let ?evs0 = "ListPath share ((?frp @ [bslash]) @ ''*'') # evs"
        have e0: "snd ?lf = ?w1 @ ?evs0" "list_all (traversal_event share) ?evs0"
          using ev by simp_all
        have "\<exists>evs. snd ?r = snd ?lf @ evs \<and> list_all (traversal_event share) evs"
          using "2.IH"(2) nd dir ok by blast
        then obtain evs1 where e1: "snd ?r = snd ?lf @ evs1"
          "list_all (traversal_event share) evs1" by blast
        have r1: "snd ?r = w @ ([MakeDirs ?lp] @ ?evs0 @ evs1)"
          "list_all (traversal_event share) ([MakeDirs ?lp] @ ?evs0 @ evs1)"
          using e0 e1 by simp_all
        have unfold: "spider_entries env depth c share rp base (ent # rest) w
            = (case ?r of (Inl e, w') \<Rightarrow> (Inl e, w')
               | (Inr u, w') \<Rightarrow> spider_entries env depth c share rp base rest w')"
          using nd dir ok by (subst spider_entries.simps) simp
        show ?thesis
        proof (cases ?r)
          case (Pair st w')
          then have sw: "snd ?r = w'" by simp
          show ?thesis
          proof (cases st)
            case (Inl e)
            then have "spider_entries env depth c share rp base (ent # rest) w = (Inl e, w')"
              using unfold Pair by simp
            then have "snd (spider_entries env depth c share rp base (ent # rest) w)
                = w @ ([MakeDirs ?lp] @ ?evs0 @ evs1)"
              using r1(1) sw by simp
            then show ?thesis using r1(2) by blast
          next
            case (Inr u)
            then have eq: "spider_entries env depth c share rp base (ent # rest) w
                = spider_entries env depth c share rp base rest w'"
              using unfold Pair by simp
            have "\<exists>evs. snd (spider_entries env depth c share rp base rest w') = w' @ evs
                    \<and> list_all (traversal_event share) evs"
              using "2.IH"(3) nd dir ok Pair Pair[symmetric] Inr Inr[symmetric] by blast
            then obtain evs2 where
              e2: "snd (spider_entries env depth c share rp base rest w') = w' @ evs2"
                "list_all (traversal_event share) evs2" by blast
            have "snd (spider_entries env depth c share rp base (ent # rest) w)
                = w @ (([MakeDirs ?lp] @ ?evs0 @ evs1) @ evs2)"
              using eq e2(1) r1(1) sw by simp
            moreover have
              "list_all (traversal_event share) (([MakeDirs ?lp] @ ?evs0 @ evs1) @ evs2)"
              using r1(2) e2(2) by simp
            ultimately show ?thesis by blast
          qed
        qed
      qed
    qed
  qed
qed

lemma spider_files_frame:
  "\<exists>evs. snd (spider_files env depth c share rp base w) = w @ ListPath share (rp @ ''*'') # evs
         \<and> list_all (traversal_event share) evs"
proof -
  obtain evs0 where
    e0: "snd (list_files env depth c share rp w) = w @ ListPath share (rp @ ''*'') # evs0"
      "list_all (traversal_event share) evs0"
    using list_files_frame by blast
  obtain evs1 where
    e1: "snd (spider_files env depth c share rp base w)
           = snd (list_files env depth c share rp w) @ evs1"
      "list_all (traversal_event share) evs1"
    unfolding spider_files_def using spider_entries_frame by blast
  have "snd (spider_files env depth c share rp base w)
          = w @ ListPath share (rp @ ''*'') # (evs0 @ evs1)"
    using e0(1) e1(1) by simp
  moreover have "list_all (traversal_event share) (evs0 @ evs1)" using e0(2) e1(2) by simp
  ultimately show ?thesis by blast
qed

lemma self_child_descent:
  assumes H: "\<forall>pat. listPath env c share pat = Some [d]" and dir: "is_directory d"
    and nd: "longname d \<notin> set [''.'', ''..'']" and ok: "\<forall>p. makedirs_ok env p"
  shows "recursion_limit env - depth = k \<Longrightarrow>
           spider_files env depth c share rp base w
             = (Inr (), w @ descent share base (longname d) rp k)"
proof (induction k arbitrary: depth rp w)
  case 0
  then have "recursion_limit env \<le> depth" by simp
  then show ?case by (simp add: spider_files_def list_files_def spider_entries_Nil)
next
  case (Suc k)
  then have lt: "\<not> recursion_limit env \<le> depth" and k: "recursion_limit env - Suc depth = k"
    by simp_all
  have lf: "list_files env depth c share rp w = ([d], w @ [ListPath share (rp @ ''*'')])"
    using lt H by (simp add: list_files_def)
  have ih: "spider_files env (Suc depth) c share (child_remote_path rp (longname d)) base
              (w @ [ListPath share (rp @ ''*''), MakeDirs (local_path base rp (longname d))])
            = (Inr (),
               (w @ [ListPath share (rp @ ''*''), MakeDirs (local_path base rp (longname d))])
                 @ descent share base (longname d) (child_remote_path rp (longname d)) k)"
    by (rule Suc.IH[OF k])
  have "spider_files env depth c share rp base w
      = spider_entries env depth c share rp base [d] (w @ [ListPath share (rp @ ''*'')])"
    by (simp add: spider_files_def lf)
  also have "\<dots> = (Inr (), w @ descent share base (longname d) rp (Suc k))"
    using dir nd ok ih by (simp add: spider_entries_Cons spider_entries_Nil)
  finally show ?case .
qed

text \<open>
  C2. As stated the claim fails (\<open>cycle_guard_counterexample\<close>): \<^verbatim>\<open>spider_files\<close> keeps no
  set of visited paths and reports no loop. What the code does: every directory entry
  other than the two dot entries, whose local directory can be created, is listed and
  entered one frame deeper each time a listing reports it, whatever the trace so far. The
  traversal always returns, but what stops it is the interpreter's stack: against a server
  that answers every listing with the one directory \<open>d\<close> (so \<open>d\<close> is a child of itself),
  with every \<^verbatim>\<open>os.makedirs\<close> succeeding, the walk enters \<open>d\<close> at every level the stack
  allows, and ends with the listing error of the deepest level, caught at line 29.
\<close>

theorem no_cycle_guard:
  "(is_directory d \<and> longname d \<notin> set [''.'', ''..'']
      \<and> makedirs_ok env (local_path base rp (longname d)) \<longrightarrow>
    spider_entries env depth c share rp base (d # rest) w =
      (case spider_files env (Suc depth) c share (child_remote_path rp (longname d)) base
              (w @ [MakeDirs (local_path base rp (longname d))])
       of
         (Inl e, w') \<Rightarrow> (Inl e, w')
       | (Inr u, w') \<Rightarrow> spider_entries env depth c share rp base rest w'))
   \<and> ((\<forall>pat. listPath env c share pat = Some [d]) \<and> is_directory d
        \<and> longname d \<notin> set [''.'', ''..''] \<and> (\<forall>p. makedirs_ok env p) \<longrightarrow>
      spider_files env depth c share rp base w =
        (Inr (), w @ descent share base (longname d) rp (recursion_limit env - depth)))"
proof (intro conjI impI)
  assume "is_directory d \<and> longname d \<notin> set [''.'', ''..'']
      \<and> makedirs_ok env (local_path base rp (longname d))"
  then show "spider_entries env depth c share rp base (d # rest) w =
      (case spider_files env (Suc depth) c share (child_remote_path rp (longname d)) base
              (w @ [MakeDirs (local_path base rp (longname d))])
       of
         (Inl e, w') \<Rightarrow> (Inl e, w')
       | (Inr u, w') \<Rightarrow> spider_entries env depth c share rp base rest w')"
    by (simp add: spider_entries_Cons)
next
  assume A: "(\<forall>pat. listPath env c share pat = Some [d]) \<and> is_directory d
        \<and> longname d \<notin> set [''.'', ''..''] \<and> (\<forall>p. makedirs_ok env p)"
  show "spider_files env depth c share rp base w =
        (Inr (), w @ descent share base (longname d) rp (recursion_limit env - depth))"
    by (rule self_child_descent[where d = d]) (use A in simp_all)
qed

theorem no_cycle_guard_witness:
  "spider_files (self_child_env (Suc (Suc 0))) 0 conn0 ''public'' [] ''output/10.0.0.5/public'' []
     = (Inr (),
        [ListPath ''public'' ''*'', MakeDirs ''output/10.0.0.5/public/X'',
         ListPath ''public'' (''X'' @ [bslash] @ ''*''),
         MakeDirs ''output/10.0.0.5/public/X//X'',
         ListPath ''public'' (''X//X'' @ [bslash] @ ''*''),
         Print (ErrListingFiles ''public'')])"
  using no_cycle_guard[where env = "self_child_env (Suc (Suc 0))" and c = conn0
      and share = "''public''" and d = "dir_entry ''X''" and rp = "[]"
      and base = "''output/10.0.0.5/public''" and w = "[]" and depth = 0 and rest = "[]"]
  by (simp add: self_child_env_def all_ok_env_def dir_entry_def child_remote_path_def
      local_path_def full_remote_path_def path_join_def replace_bslash_def lstrip_bslash_def
      slash_def bslash_def)

theorem cycle_guard_counterexample:
  "spider_files twice_env 0 conn0 ''public'' [] ''output/10.0.0.5/public'' [] =
     (Inr (), [ListPath ''public'' ''*'',
        MakeDirs ''output/10.0.0.5/public/X'', ListPath ''public'' (''X'' @ [bslash] @ ''*''),
        MakeDirs ''output/10.0.0.5/public/X'', ListPath ''public'' (''X'' @ [bslash] @ ''*'')])
   \<and> spider_files (self_child_env (Suc (Suc (Suc 0)))) 0 conn0 ''public'' []
        ''output/10.0.0.5/public'' [] =
     (Inr (), [ListPath ''public'' ''*'',
        MakeDirs ''output/10.0.0.5/public/X'', ListPath ''public'' (''X'' @ [bslash] @ ''*''),
        MakeDirs ''output/10.0.0.5/public/X//X'',
        ListPath ''public'' (''X//X'' @ [bslash] @ ''*''),
        MakeDirs ''output/10.0.0.5/public/X//X//X'',
        ListPath ''public'' (''X//X//X'' @ [bslash] @ ''*''),
        Print (ErrListingFiles ''public'')])"
  by (simp add: twice_env_def self_child_env_def eval_defs)

text \<open>
  C9. An entry named \<^verbatim>\<open>.\<close> or \<^verbatim>\<open>..\<close> is dropped before anything else is done with it: the
  loop goes on with the remaining entries from the same trace, so the entry causes no
  listing, no directory creation and no download.
\<close>

theorem dot_entries_are_skipped:
  assumes "longname f = ''.'' \<or> longname f = ''..''"
  shows "spider_entries env depth c share rp base (f # rest) w
           = spider_entries env depth c share rp base rest w"
  using assms by (auto simp: spider_entries_Cons)

theorem dot_entries_are_skipped_witness:
  "spider_entries (all_ok_env (Some [''public0'']) (\<lambda>s p. Some [dir_entry ''.'', dir_entry ''..'']))
     (Suc 0) conn0 ''public'' (''docs'' @ [bslash]) ''output/10.0.0.5/public''
     [dir_entry ''.'', dir_entry ''..''] [] = (Inr (), [])"
  using dot_entries_are_skipped[where f = "dir_entry ''.''" and c = conn0 and depth = "Suc 0"
      and share = "''public''" and rp = "''docs'' @ [bslash]"
      and base = "''output/10.0.0.5/public''" and rest = "[dir_entry ''..'']" and w = "[]"]
    dot_entries_are_skipped[where f = "dir_entry ''..''" and c = conn0 and depth = "Suc 0"
      and share = "''public''" and rp = "''docs'' @ [bslash]"
      and base = "''output/10.0.0.5/public''" and rest = "[]" and w = "[]"]
  by (simp add: dir_entry_def spider_entries_Nil)

text \<open>
  C6. As stated the claim fails in one point (\<open>listing_failure_record_counterexample\<close>):
  the line printed for a failed listing names the share, not the path \<open>P\<close>. What the code
  does: a listing of \<open>P\<close> that raises (the server refuses, or the stack is used up) is
  caught in \<^verbatim>\<open>list_files\<close>; the traversal of \<open>P\<close> returns normally, having added the
  listing call and the error line that names the share; and the loop over the parent
  directory goes on with the siblings of \<open>P\<close>.
\<close>

theorem listing_failure_is_local:
  assumes "recursion_limit env \<le> depth \<or> listPath env c share (P @ ''*'') = None"
  shows "spider_files env depth c share P base w =
           (Inr (), w @ [ListPath share (P @ ''*''), Print (ErrListingFiles share)])
         \<and> (is_directory d \<and> longname d \<notin> set [''.'', ''..'']
              \<and> makedirs_ok env (local_path base rp (longname d))
              \<and> child_remote_path rp (longname d) = P \<and> depth = Suc dp \<longrightarrow>
            spider_entries env dp c share rp base (d # rest) wp =
              spider_entries env dp c share rp base rest
                (wp @ [MakeDirs (local_path base rp (longname d)),
                       ListPath share (P @ ''*''), Print (ErrListingFiles share)]))"
proof -
  have a: "\<And>w. spider_files env depth c share P base w =
           (Inr (), w @ [ListPath share (P @ ''*''), Print (ErrListingFiles share)])"
    using assms by (auto simp: spider_files_def list_files_def spider_entries_Nil)
  show ?thesis using a by (auto simp: spider_entries_Cons)
qed

theorem listing_failure_is_local_witness:
  "spider_files
     (all_ok_env (Some [''public0''])
        (\<lambda>s p. if p = ''*'' then Some [dir_entry ''secret'', dir_entry ''docs'']
                else if p = ''docs'' @ [bslash] @ ''*'' then Some [file_entry ''a.txt'']
                else None))
     0 conn0 ''public'' [] ''output/10.0.0.5/public'' [] =
   (Inr (),
     [ListPath ''public'' ''*'',
      MakeDirs ''output/10.0.0.5/public/secret'',
      ListPath ''public'' (''secret'' @ [bslash] @ ''*''), Print (ErrListingFiles ''public''),
      MakeDirs ''output/10.0.0.5/public/docs'',
      ListPath ''public'' (''docs'' @ [bslash] @ ''*''),
      MakeDirs ''output/10.0.0.5/public/docs'',
      OpenWrite ''output/10.0.0.5/public/docs//a.txt'', GetFile ''public'' ''docs//a.txt'',
      Print (Downloaded ''docs//a.txt'' ''output/10.0.0.5/public/docs//a.txt'')])"
  using listing_failure_is_local[where env =
      "all_ok_env (Some [''public0''])
        (\<lambda>s p. if p = ''*'' then Some [dir_entry ''secret'', dir_entry ''docs'']
                else if p = ''docs'' @ [bslash] @ ''*'' then Some [file_entry ''a.txt'']
                else None)"
      and c = conn0 and share = "''public''" and P = "''secret'' @ [bslash]"
      and depth = "Suc 0" and dp = 0
      and base = "''output/10.0.0.5/public''"
      and w = "[ListPath ''public'' ''*'', MakeDirs ''output/10.0.0.5/public/secret'']"
      and d = "dir_entry ''secret''" and rp = "[]" and rest = "[dir_entry ''docs'']"
      and wp = "[ListPath ''public'' ''*'']"]
  by (simp add: eval_defs)

theorem listing_failure_record_counterexample:
  "printed (snd (list_files two_denied_env (Suc 0) conn0 ''public'' (''a'' @ [bslash]) []))
     = [ErrListingFiles ''public'']
   \<and> printed (snd (list_files two_denied_env (Suc 0) conn0 ''public'' (''b'' @ [bslash]) []))
     = [ErrListingFiles ''public'']
   \<and> ''a'' @ [bslash] \<noteq> ''b'' @ [bslash]
   \<and> spider_files two_denied_env 0 conn0 ''public'' [] ''output/10.0.0.5/public'' [] =
     (Inr (),
       [ListPath ''public'' ''*'',
        MakeDirs ''output/10.0.0.5/public/a'',
        ListPath ''public'' (''a'' @ [bslash] @ ''*''), Print (ErrListingFiles ''public''),
        MakeDirs ''output/10.0.0.5/public/b'',
        ListPath ''public'' (''b'' @ [bslash] @ ''*''), Print (ErrListingFiles ''public'')])"
  by (simp add: two_denied_env_def printed_def eval_defs)

text \<open>
  C7. A download that fails (creating the parent directory, opening the local file, or
  the transfer itself) is caught in \<^verbatim>\<open>download_file\<close>: the events it adds end with the
  error line for that remote path and hold no success line, and the loop goes on with the
  remaining entries. The local file may have been opened by then.
\<close>

theorem download_failure_is_local:
  assumes "\<not> is_directory f" and "longname f \<notin> set [''.'', ''..'']"
    and "\<not> (makedirs_ok env (dirname (local_path base rp (longname f)))
            \<and> open_ok env (local_path base rp (longname f))
            \<and> getFile_ok env c share (full_remote_path rp (longname f)))"
  shows "\<exists>evs.
           download_file env c share (full_remote_path rp (longname f))
             (local_path base rp (longname f)) w = w @ evs
         \<and> last evs = Print (ErrDownloading (full_remote_path rp (longname f)))
         \<and> filter (\<lambda>e. \<exists>r l. e = Print (Downloaded r l)) evs = []
         \<and> spider_entries env depth c share rp base (f # rest) w =
             spider_entries env depth c share rp base rest (w @ evs)"
  using assms by (auto simp: spider_entries_Cons download_file_def)

theorem download_failure_is_local_witness:
  "spider_files
     ((all_ok_env (Some [''public0''])
        (\<lambda>s p. if p = ''*'' then Some [file_entry ''locked.bin'', file_entry ''readme.txt'']
                else None))
        \<lparr>getFile_ok := (\<lambda>c s p. p \<noteq> ''locked.bin'')\<rparr>)
     0 conn0 ''public'' [] ''output/10.0.0.5/public'' [] =
   (Inr (),
     [ListPath ''public'' ''*'',
      MakeDirs ''output/10.0.0.5/public'', OpenWrite ''output/10.0.0.5/public/locked.bin'',
      GetFile ''public'' ''locked.bin'', Print (ErrDownloading ''locked.bin''),
      MakeDirs ''output/10.0.0.5/public'', OpenWrite ''output/10.0.0.5/public/readme.txt'',
      GetFile ''public'' ''readme.txt'',
      Print (Downloaded ''readme.txt'' ''output/10.0.0.5/public/readme.txt'')])"
  using download_failure_is_local[where f = "file_entry ''locked.bin''" and env =
      "(all_ok_env (Some [''public0''])
        (\<lambda>s p. if p = ''*'' then Some [file_entry ''locked.bin'', file_entry ''readme.txt'']
                else None))
        \<lparr>getFile_ok := (\<lambda>c s p. p \<noteq> ''locked.bin'')\<rparr>"
      and base = "''output/10.0.0.5/public''" and rp = "[]" and c = conn0
      and share = "''public''" and depth = 0
      and w = "[ListPath ''public'' ''*'']" and rest = "[file_entry ''readme.txt'']"]
  by (simp add: eval_defs)

section \<open>One session\<close>

text \<open>
  C3. The code logs off only on the path that reaches line 77. With a login that
  succeeds and an empty share list the function returns at line 62, and when the
  directory of a listed entry cannot be created the exception reaches line 78; in both
  runs the trace holds a login and no logoff, and the sweep moves on to the next triple.
\<close>

theorem logoff_skipped_on_early_exits:
  "main (all_ok_env (Some []) (\<lambda>s p. None)) [''10.0.0.5''] [''guest''] [''a'', ''b''] [] =
     (Inr (),
       [Print (Trying ''10.0.0.5'' ''guest''), Connect ''10.0.0.5'',
        Login ''10.0.0.5'' ''guest'' ''a'', ListShares,
        Print (NoSharesFound ''10.0.0.5'' ''guest''),
        Print (Trying ''10.0.0.5'' ''guest''), Connect ''10.0.0.5'',
        Login ''10.0.0.5'' ''guest'' ''b'', ListShares,
        Print (NoSharesFound ''10.0.0.5'' ''guest'')])
   \<and> spider_smb_shares
        ((all_ok_env (Some [''public0'']) (\<lambda>s p. Some [dir_entry ''docs'']))
           \<lparr>makedirs_ok := (\<lambda>p. p \<noteq> ''output/10.0.0.5/public/docs'')\<rparr>)
        ''10.0.0.5'' ''guest'' '''' [] =
     [Connect ''10.0.0.5'', Login ''10.0.0.5'' ''guest'' '''', ListShares,
      MakeDirs ''output/10.0.0.5'', Print (ListingFilesIn ''public'' ''10.0.0.5''),
      MakeDirs ''output/10.0.0.5/public'', ListPath ''public'' ''*'',
      MakeDirs ''output/10.0.0.5/public/docs'',
      Print (ErrConnecting ''10.0.0.5'' ''guest'')]"
  by (simp add: eval_defs)

text \<open>
  C5. A login that raises ends the work on that triple: the trace gains the connection,
  the login call and the error line, nothing else (no directory is created, no further call
  is made on the connection), and the loop of \<^verbatim>\<open>main\<close> goes on with the remaining triples.
\<close>

theorem login_failure_skips_triple:
  assumes "connect_ok env host" and "\<not> login_ok env host username pw"
  shows "spider_smb_shares env host username pw w =
           w @ [Connect host, Login host username pw, Print (ErrConnecting host username)]
         \<and> main_loop env ([host, username, pw] # rest) w =
             main_loop env rest
               (w @ [Print (Trying host username), Connect host, Login host username pw,
                     Print (ErrConnecting host username)])"
  using assms by (simp add: spider_smb_shares_def)

theorem login_failure_skips_triple_witness:
  "main ((all_ok_env (Some [''public0'']) (\<lambda>s p. Some []))\<lparr>login_ok := (\<lambda>h u p. p = ''good'')\<rparr>)
      [''10.0.0.5''] [''guest''] [''bad'', ''good''] [] =
     (Inr (),
       [Print (Trying ''10.0.0.5'' ''guest''), Connect ''10.0.0.5'',
        Login ''10.0.0.5'' ''guest'' ''bad'', Print (ErrConnecting ''10.0.0.5'' ''guest''),
        Print (Trying ''10.0.0.5'' ''guest''), Connect ''10.0.0.5'',
        Login ''10.0.0.5'' ''guest'' ''good'', ListShares, MakeDirs ''output/10.0.0.5'',
        Print (ListingFilesIn ''public'' ''10.0.0.5''), MakeDirs ''output/10.0.0.5/public'',
        ListPath ''public'' ''*'', Logoff])"
  using login_failure_skips_triple[where env =
      "(all_ok_env (Some [''public0'']) (\<lambda>s p. Some []))\<lparr>login_ok := (\<lambda>h u p. p = ''good'')\<rparr>"
      and host = "''10.0.0.5''" and username = "''guest''" and pw = "''bad''" and w = "[]"
      and rest = "[[''10.0.0.5'', ''guest'', ''good'']]"]
  by (simp add: eval_defs)

text \<open>
  C8. A share listing that returns the empty list is reported by the line of line 61 alone,
  without the error line a failed listing prints first; no directory is created, and the
  loop of \<^verbatim>\<open>main\<close> goes on with the remaining triples.
\<close>

theorem no_shares_reported_distinctly:
  assumes "connect_ok env host" and "login_ok env host username pw"
    and "listShares env \<lparr>remote_host = host, user = username, password = pw\<rparr> = Some []"
    and "connect_ok env' host" and "login_ok env' host username pw"
    and "listShares env' \<lparr>remote_host = host, user = username, password = pw\<rparr> = None"
  shows "spider_smb_shares env host username pw w =
           w @ [Connect host, Login host username pw, ListShares,
                Print (NoSharesFound host username)]
         \<and> spider_smb_shares env' host username pw w =
           w @ [Connect host, Login host username pw, ListShares,
                Print ErrListingShares, Print (NoSharesFound host username)]
         \<and> main_loop env ([host, username, pw] # rest) w =
             main_loop env rest
               (w @ [Print (Trying host username), Connect host, Login host username pw,
                     ListShares, Print (NoSharesFound host username)])"
  using assms by (simp add: spider_smb_shares_def list_shares_def)

theorem no_shares_reported_distinctly_witness:
  "spider_smb_shares (all_ok_env (Some []) (\<lambda>s p. None)) ''10.0.0.5'' ''guest'' '''' [] =
     [Connect ''10.0.0.5'', Login ''10.0.0.5'' ''guest'' '''', ListShares,
      Print (NoSharesFound ''10.0.0.5'' ''guest'')]
   \<and> spider_smb_shares (all_ok_env None (\<lambda>s p. None)) ''10.0.0.5'' ''guest'' '''' [] =
     [Connect ''10.0.0.5'', Login ''10.0.0.5'' ''guest'' '''', ListShares,
      Print ErrListingShares, Print (NoSharesFound ''10.0.0.5'' ''guest'')]
   \<and> main_loop (all_ok_env (Some []) (\<lambda>s p. None)) [[''10.0.0.5'', ''guest'', '''']] [] =
     (Inr (), [Print (Trying ''10.0.0.5'' ''guest''), Connect ''10.0.0.5'',
           Login ''10.0.0.5'' ''guest'' '''', ListShares,
           Print (NoSharesFound ''10.0.0.5'' ''guest'')])"
  using no_shares_reported_distinctly[where env = "all_ok_env (Some []) (\<lambda>s p. None)"
      and host = "''10.0.0.5''" and username = "''guest''" and pw = "''''"
      and env' = "all_ok_env None (\<lambda>s p. None)" and w = "[]" and rest = "[]"]
  by (simp add: all_ok_env_def)

lemma rstrip_slash_snoc: "rstrip_slash (a @ [slash]) = rstrip_slash a"
  by (simp add: rstrip_slash_def)

lemma session_event_Cons:
  "session_event (s # rest) host e \<longleftrightarrow>
     traversal_event s e \<or> e = Print (ListingFilesIn s host) \<or> session_event rest host e"
  by (auto simp: session_event_def)

lemma session_event_ListPath: "session_event shares host (ListPath s pat) \<Longrightarrow> s \<in> set shares"
  by (auto simp: session_event_def list_ex_iff)

lemma session_event_GetFile: "session_event shares host (GetFile s p) \<Longrightarrow> s \<in> set shares"
  by (auto simp: session_event_def list_ex_iff)

lemma session_event_Listing:
  "session_event shares host (Print (ListingFilesIn s h)) \<Longrightarrow> s \<in> set shares \<and> h = host"
  by (auto simp: session_event_def list_ex_iff)

lemma session_event_Logoff: "\<not> session_event shares host Logoff"
  by (auto simp: session_event_def list_ex_iff)

lemma share_loop_trace:
  "\<exists>evs. snd (share_loop env c host shares w) = w @ evs
         \<and> list_all (session_event shares host) evs"
proof (induction shares arbitrary: w)
  case Nil
  show ?case by simp
next
  case (Cons s rest)
  let ?w1 = "w @ [Print (ListingFilesIn s host), MakeDirs (share_directory host s)]"
  let ?r = "spider_files env 0 c s [] (share_directory host s) ?w1"
  have hd2: "list_all (session_event (s # rest) host)
               [Print (ListingFilesIn s host), MakeDirs (share_directory host s)]"
    by (simp add: session_event_Cons)
  show ?case
  proof (cases "makedirs_ok env (share_directory host s)")
    case False
    then have "snd (share_loop env c host (s # rest) w)
        = w @ [Print (ListingFilesIn s host), MakeDirs (share_directory host s)]" by simp
    then show ?thesis using hd2 by blast
  next
    case True
    obtain evs where ev: "snd ?r = ?w1 @ ListPath s ([] @ ''*'') # evs"
      "list_all (traversal_event s) evs"
      using spider_files_frame by blast
    let ?evs1 = "ListPath s ''*'' # evs"
    have t1: "list_all (session_event (s # rest) host) ?evs1"
      using ev(2) by (auto simp: list_all_iff session_event_Cons)
    have r1: "snd ?r = w @ ([Print (ListingFilesIn s host), MakeDirs (share_directory host s)]
                @ ?evs1)"
      "list_all (session_event (s # rest) host)
         ([Print (ListingFilesIn s host), MakeDirs (share_directory host s)] @ ?evs1)"
      using ev(1) t1 hd2 by simp_all
    show ?thesis
    proof (cases ?r)
      case (Pair st w')
      then have sw: "snd ?r = w'" by simp
      show ?thesis
      proof (cases st)
        case (Inl e)
        then have "share_loop env c host (s # rest) w = (Inl e, w')"
          using True Pair by simp
        then have "snd (share_loop env c host (s # rest) w)
            = w @ ([Print (ListingFilesIn s host), MakeDirs (share_directory host s)] @ ?evs1)"
          using r1(1) sw by simp
        then show ?thesis using r1(2) by blast
      next
        case (Inr u)
        then have eq: "share_loop env c host (s # rest) w = share_loop env c host rest w'"
          using True Pair by simp
        obtain evs2 where e2: "snd (share_loop env c host rest w') = w' @ evs2"
          "list_all (session_event rest host) evs2"
          using Cons.IH by blast
        have t2: "list_all (session_event (s # rest) host) evs2"
          using e2(2) by (auto simp: list_all_iff session_event_Cons)
        have "snd (share_loop env c host (s # rest) w)
            = w @ (([Print (ListingFilesIn s host), MakeDirs (share_directory host s)] @ ?evs1)
                    @ evs2)"
          using eq e2(1) r1(1) sw by simp
        moreover have "list_all (session_event (s # rest) host)
            (([Print (ListingFilesIn s host), MakeDirs (share_directory host s)] @ ?evs1) @ evs2)"
          using r1(2) t2 by simp
        ultimately show ?thesis by blast
      qed
    qed
  qed
qed

lemma share_loop_complete:
  "fst (share_loop env c host shares w) = Inr () \<Longrightarrow> s \<in> set shares \<Longrightarrow>
     \<exists>a b. snd (share_loop env c host shares w) =
       w @ a @ [Print (ListingFilesIn s host), MakeDirs (share_directory host s),
                ListPath s ''*''] @ b"
proof (induction shares arbitrary: w)
  case Nil
  then show ?case by simp
next
  case (Cons x rest)
  let ?w1 = "w @ [Print (ListingFilesIn x host), MakeDirs (share_directory host x)]"
  let ?r = "spider_files env 0 c x [] (share_directory host x) ?w1"
  have ok: "makedirs_ok env (share_directory host x)"
    using Cons.prems(1) by (auto split: if_splits)
  obtain evs where ev: "snd ?r = ?w1 @ ListPath x ([] @ ''*'') # evs"
    using spider_files_frame by blast
  show ?case
  proof (cases ?r)
    case (Pair st w')
    then have sw: "w' = w @ [Print (ListingFilesIn x host), MakeDirs (share_directory host x),
                            ListPath x ''*''] @ evs"
      using ev by simp
    have st: "st = Inr ()" using Cons.prems(1) ok Pair by (cases st) auto
    have eq: "share_loop env c host (x # rest) w = share_loop env c host rest w'"
      using ok Pair st by simp
    show ?thesis
    proof (cases "s = x")
      case True
      obtain evs2 where "snd (share_loop env c host rest w') = w' @ evs2"
        using share_loop_trace by blast
      then have "snd (share_loop env c host (x # rest) w) =
          w @ [] @ [Print (ListingFilesIn s host), MakeDirs (share_directory host s),
                    ListPath s ''*''] @ (evs @ evs2)"
        using eq sw True by simp
      then show ?thesis by blast
    next
      case False
      then have "s \<in> set rest" using Cons.prems(2) by simp
      moreover have "fst (share_loop env c host rest w') = Inr ()"
        using Cons.prems(1) eq by simp
      ultimately obtain a b where
        "snd (share_loop env c host rest w') =
           w' @ a @ [Print (ListingFilesIn s host), MakeDirs (share_directory host s),
                     ListPath s ''*''] @ b"
        using Cons.IH by blast
      then have "snd (share_loop env c host (x # rest) w) =
          w @ ([Print (ListingFilesIn x host), MakeDirs (share_directory host x),
                ListPath x ''*''] @ evs @ a)
            @ [Print (ListingFilesIn s host), MakeDirs (share_directory host s),
               ListPath s ''*''] @ b"
        using eq sw by simp
      then show ?thesis by blast
    qed
  qed
qed

text \<open>
  C10. The share names of a session are the reported netnames without their last
  character. Every listing and download call of the session is made on one of these
  names, every share announced is one of them, and when the session runs to its logoff
  each of them is announced, gets the local directory \<open>share_directory host\<close> of that name,
  and is listed from its root under that name. A netname of one character gives the
  empty share name, whose share directory is the host directory followed by at most a
  separator.
\<close>

theorem share_name_is_netname_without_last_char:
  assumes "connect_ok env host" and "login_ok env host username pw"
    and "listShares env \<lparr>remote_host = host, user = username, password = pw\<rparr> = Some names"
  shows "list_shares env \<lparr>remote_host = host, user = username, password = pw\<rparr> w
           = (map drop_last names, w @ [ListShares])
         \<and> (\<exists>evs. spider_smb_shares env host username pw w = w @ evs
              \<and> (\<forall>s pat. ListPath s pat \<in> set evs \<longrightarrow> s \<in> set (map drop_last names))
              \<and> (\<forall>s p. GetFile s p \<in> set evs \<longrightarrow> s \<in> set (map drop_last names))
              \<and> (\<forall>s h. Print (ListingFilesIn s h) \<in> set evs \<longrightarrow>
                    s \<in> set (map drop_last names) \<and> h = host)
              \<and> (Logoff \<in> set evs \<longrightarrow>
                    (\<forall>nm \<in> set names. \<exists>a b. evs =
                       a @ [Print (ListingFilesIn (drop_last nm) host),
                            MakeDirs (share_directory host (drop_last nm)),
                            ListPath (drop_last nm) ''*''] @ b)))
         \<and> drop_last (n @ [ch]) = n
         \<and> drop_last [ch] = []
         \<and> rstrip_slash (share_directory host (drop_last [ch])) = rstrip_slash (host_directory host)
         \<and> share_directory host (drop_last [ch]) =
             (if last (host_directory host) = slash then host_directory host
              else host_directory host @ [slash])"
proof -
  let ?c = "\<lparr>remote_host = host, user = username, password = pw\<rparr>"
  let ?sh = "map drop_last names"
  let ?pre = "[Connect host, Login host username pw, ListShares]"
  let ?mk = "MakeDirs (host_directory host)"
  define Q where "Q = (\<lambda>evs.
       (\<forall>s pat. ListPath s pat \<in> set evs \<longrightarrow> s \<in> set (map drop_last names))
     \<and> (\<forall>s p. GetFile s p \<in> set evs \<longrightarrow> s \<in> set (map drop_last names))
     \<and> (\<forall>s h. Print (ListingFilesIn s h) \<in> set evs \<longrightarrow>
           s \<in> set (map drop_last names) \<and> h = host)
     \<and> (Logoff \<in> set evs \<longrightarrow>
           (\<forall>nm \<in> set names. \<exists>a b. evs =
              a @ [Print (ListingFilesIn (drop_last nm) host),
                   MakeDirs (share_directory host (drop_last nm)),
                   ListPath (drop_last nm) ''*''] @ b)))"
  have ls: "\<And>w. list_shares env ?c w = (?sh, w @ [ListShares])"
    using assms(3) by (simp add: list_shares_def)
  have hdne: "host_directory host \<noteq> []"
    by (simp add: host_directory_def path_join_def)
  have sd: "share_directory host [] =
             (if last (host_directory host) = slash then host_directory host
              else host_directory host @ [slash])"
    using hdne by (simp add: share_directory_def path_join_def)
  have rs: "rstrip_slash (share_directory host []) = rstrip_slash (host_directory host)"
    by (simp add: sd rstrip_slash_snoc)
  have session: "\<exists>evs. spider_smb_shares env host username pw w = w @ evs \<and> Q evs"
  proof (cases "names = []")
    case True
    then have "spider_smb_shares env host username pw w =
                 w @ (?pre @ [Print (NoSharesFound host username)])"
      using assms(1,2) ls by (simp add: spider_smb_shares_def Let_def)
    moreover have "Q (?pre @ [Print (NoSharesFound host username)])"
      by (simp add: Q_def)
    ultimately show ?thesis by blast
  next
    case ne: False
    show ?thesis
    proof (cases "makedirs_ok env (host_directory host)")
      case False
      then have "spider_smb_shares env host username pw w =
                 w @ (?pre @ [?mk, Print (ErrConnecting host username)])"
        using assms(1,2) ls ne by (simp add: spider_smb_shares_def Let_def)
      moreover have "Q (?pre @ [?mk, Print (ErrConnecting host username)])"
        by (simp add: Q_def)
      ultimately show ?thesis by blast
    next
      case mk: True
      let ?w1 = "w @ [Connect host, Login host username pw, ListShares, ?mk]"
      let ?r = "share_loop env ?c host ?sh ?w1"
      obtain lev where lev: "snd ?r = ?w1 @ lev" "list_all (session_event ?sh host) lev"
        using share_loop_trace by blast
      have unfold: "spider_smb_shares env host username pw w =
          (case ?r of
             (Inl e, w2) \<Rightarrow> w2 @ [Print (ErrConnecting host username)]
           | (Inr u, w2) \<Rightarrow>
               if logoff_ok env ?c then w2 @ [Logoff]
               else w2 @ [Logoff, Print (ErrConnecting host username)])"
        using assms(1,2) ls ne mk by (simp add: spider_smb_shares_def Let_def)
      have inner: "\<forall>e \<in> set lev. session_event ?sh host e"
        using lev(2) by (simp add: list_all_iff)
      have q1: "\<forall>s pat. ListPath s pat \<in> set lev \<longrightarrow> s \<in> set ?sh"
        using inner session_event_ListPath by blast
      have q2: "\<forall>s p. GetFile s p \<in> set lev \<longrightarrow> s \<in> set ?sh"
        using inner session_event_GetFile by blast
      have q3: "\<forall>s h. Print (ListingFilesIn s h) \<in> set lev \<longrightarrow> s \<in> set ?sh \<and> h = host"
        using inner session_event_Listing by blast
      have q4: "Logoff \<notin> set lev"
        using inner session_event_Logoff by blast
      show ?thesis
      proof (cases ?r)
        case (Pair st w2)
        then have w2: "w2 = ?w1 @ lev" using lev(1) by simp
        show ?thesis
        proof (cases st)
          case (Inl e)
          let ?evs = "?pre @ [?mk] @ lev @ [Print (ErrConnecting host username)]"
          have res: "spider_smb_shares env host username pw w = w @ ?evs"
            using unfold Pair Inl w2 by simp
          have "Q ?evs"
            unfolding Q_def
          proof (intro conjI)
            show "\<forall>s pat. ListPath s pat \<in> set ?evs \<longrightarrow> s \<in> set ?sh" using q1 by auto
            show "\<forall>s p. GetFile s p \<in> set ?evs \<longrightarrow> s \<in> set ?sh" using q2 by auto
            show "\<forall>s h. Print (ListingFilesIn s h) \<in> set ?evs \<longrightarrow> s \<in> set ?sh \<and> h = host"
              using q3 by auto
            show "Logoff \<in> set ?evs \<longrightarrow>
                (\<forall>nm \<in> set names. \<exists>a b. ?evs =
                   a @ [Print (ListingFilesIn (drop_last nm) host),
                        MakeDirs (share_directory host (drop_last nm)),
                        ListPath (drop_last nm) ''*''] @ b)"
              using q4 by auto
          qed
          then show ?thesis using res by blast
        next
          case (Inr u)
          then have full: "fst ?r = Inr ()" using Pair by simp
          let ?tl = "if logoff_ok env ?c then [Logoff]
                     else [Logoff, Print (ErrConnecting host username)]"
          let ?evs = "?pre @ [?mk] @ lev @ ?tl"
          have res: "spider_smb_shares env host username pw w = w @ ?evs"
            using unfold Pair Inr w2 by simp
          have b2: "\<forall>nm \<in> set names. \<exists>a b. ?evs =
                       a @ [Print (ListingFilesIn (drop_last nm) host),
                            MakeDirs (share_directory host (drop_last nm)),
                            ListPath (drop_last nm) ''*''] @ b"
          proof
            fix nm assume "nm \<in> set names"
            then have "drop_last nm \<in> set ?sh" by simp
            from share_loop_complete[OF full this] obtain a b where
              "snd ?r = ?w1 @ a @ [Print (ListingFilesIn (drop_last nm) host),
                              MakeDirs (share_directory host (drop_last nm)),
                              ListPath (drop_last nm) ''*''] @ b" by blast
            then have "lev = a @ [Print (ListingFilesIn (drop_last nm) host),
                              MakeDirs (share_directory host (drop_last nm)),
                              ListPath (drop_last nm) ''*''] @ b"
              using lev(1) by simp
            then have "?evs =
                         (?pre @ [?mk] @ a) @ [Print (ListingFilesIn (drop_last nm) host),
                              MakeDirs (share_directory host (drop_last nm)),
                              ListPath (drop_last nm) ''*''] @ (b @ ?tl)" by simp
            then show "\<exists>a b. ?evs =
                         a @ [Print (ListingFilesIn (drop_last nm) host),
                              MakeDirs (share_directory host (drop_last nm)),
                              ListPath (drop_last nm) ''*''] @ b" by blast
          qed
          have "Q ?evs"
            unfolding Q_def
          proof (intro conjI)
            show "\<forall>s pat. ListPath s pat \<in> set ?evs \<longrightarrow> s \<in> set ?sh" using q1 by auto
            show "\<forall>s p. GetFile s p \<in> set ?evs \<longrightarrow> s \<in> set ?sh" using q2 by auto
            show "\<forall>s h. Print (ListingFilesIn s h) \<in> set ?evs \<longrightarrow> s \<in> set ?sh \<and> h = host"
              using q3 by auto
            show "Logoff \<in> set ?evs \<longrightarrow>
                (\<forall>nm \<in> set names. \<exists>a b. ?evs =
                   a @ [Print (ListingFilesIn (drop_last nm) host),
                        MakeDirs (share_directory host (drop_last nm)),
                        ListPath (drop_last nm) ''*''] @ b)"
              using b2 by blast
          qed
          then show ?thesis using res by blast
        qed
      qed
    qed
  qed
  have dl: "drop_last (n @ [ch]) = n" "drop_last [ch] = []"
    by (simp_all add: drop_last_def)
  from session obtain evs where
    evs: "spider_smb_shares env host username pw w = w @ evs" "Q evs" by blast
  have ex: "\<exists>evs. spider_smb_shares env host username pw w = w @ evs
              \<and> (\<forall>s pat. ListPath s pat \<in> set evs \<longrightarrow> s \<in> set (map drop_last names))
              \<and> (\<forall>s p. GetFile s p \<in> set evs \<longrightarrow> s \<in> set (map drop_last names))
              \<and> (\<forall>s h. Print (ListingFilesIn s h) \<in> set evs \<longrightarrow>
                    s \<in> set (map drop_last names) \<and> h = host)
              \<and> (Logoff \<in> set evs \<longrightarrow>
                    (\<forall>nm \<in> set names. \<exists>a b. evs =
                       a @ [Print (ListingFilesIn (drop_last nm) host),
                            MakeDirs (share_directory host (drop_last nm)),
                            ListPath (drop_last nm) ''*''] @ b))"
    using evs unfolding Q_def by blast
  show ?thesis
  proof (intro conjI)
    show "list_shares env ?c w = (map drop_last names, w @ [ListShares])" by (rule ls)
    show "\<exists>evs. spider_smb_shares env host username pw w = w @ evs
              \<and> (\<forall>s pat. ListPath s pat \<in> set evs \<longrightarrow> s \<in> set (map drop_last names))
              \<and> (\<forall>s p. GetFile s p \<in> set evs \<longrightarrow> s \<in> set (map drop_last names))
              \<and> (\<forall>s h. Print (ListingFilesIn s h) \<in> set evs \<longrightarrow>
                    s \<in> set (map drop_last names) \<and> h = host)
              \<and> (Logoff \<in> set evs \<longrightarrow>
                    (\<forall>nm \<in> set names. \<exists>a b. evs =
                       a @ [Print (ListingFilesIn (drop_last nm) host),
                            MakeDirs (share_directory host (drop_last nm)),
                            ListPath (drop_last nm) ''*''] @ b))" by (rule ex)
    show "drop_last (n @ [ch]) = n" by (rule dl(1))
    show "drop_last [ch] = []" by (rule dl(2))
    show "rstrip_slash (share_directory host (drop_last [ch])) = rstrip_slash (host_directory host)"
      using rs by (simp add: dl)
    show "share_directory host (drop_last [ch]) =
             (if last (host_directory host) = slash then host_directory host
              else host_directory host @ [slash])"
      using sd by (simp add: dl)
  qed
qed

theorem share_name_is_netname_without_last_char_witness:
  "spider_smb_shares (all_ok_env (Some [''public0'', ''$'']) (\<lambda>s p. Some []))
      ''10.0.0.5'' ''guest'' '''' [] =
     [Connect ''10.0.0.5'', Login ''10.0.0.5'' ''guest'' '''', ListShares,
      MakeDirs ''output/10.0.0.5'',
      Print (ListingFilesIn ''public'' ''10.0.0.5''), MakeDirs ''output/10.0.0.5/public'',
      ListPath ''public'' ''*'',
      Print (ListingFilesIn '''' ''10.0.0.5''), MakeDirs ''output/10.0.0.5/'',
      ListPath '''' ''*'', Logoff]
   \<and> share_directory ''10.0.0.5'' (drop_last ''$'') = ''output/10.0.0.5/''"
  using share_name_is_netname_without_last_char[where env =
      "all_ok_env (Some [''public0'', ''$'']) (\<lambda>s p. Some [])" and host = "''10.0.0.5''"
      and username = "''guest''" and pw = "''''" and names = "[''public0'', ''$'']"
      and w = "[]" and n = "[]" and ch = "CHR ''$''"]
  by (simp add: eval_defs)

section \<open>The sweep\<close>




















end
